theory Spec2Isabelle
  imports Complex_Main "HOL-Library.Word"
begin

section \<open>JavaScript values used by the task store\<close>

text \<open>
  A JavaScript string is a sequence of UTF-16 code units, and \<open>length\<close> counts code
  units. String literals of the source are ASCII and are written with \<open>js\<close>.
\<close>

type_synonym jsstring = "16 word list"

definition js :: "string \<Rightarrow> jsstring" where
  "js s = map of_char s"

text \<open>
  \<open>String.prototype.trim\<close> removes the code units of WhiteSpace and LineTerminator
  (ECMAScript 12.2, 12.3) from both ends: TAB, LF, VT, FF, CR, SP, NBSP, ZWNBSP, the
  line and paragraph separators and the space separators of Unicode.
\<close>

definition isWhiteSpace :: "16 word \<Rightarrow> bool" where
  "isWhiteSpace c \<longleftrightarrow>
     c \<in> set [0x09, 0x0A, 0x0B, 0x0C, 0x0D, 0x20, 0xA0, 0x1680, 0x2028, 0x2029,
               0x202F, 0x205F, 0x3000, 0xFEFF]
     \<or> (0x2000 \<le> c \<and> c \<le> 0x200A)"

definition trim :: "jsstring \<Rightarrow> jsstring" where
  "trim s = rev (dropWhile isWhiteSpace (rev (dropWhile isWhiteSpace s)))"

text \<open>
  The numbers a task can carry: \<open>Date.now()\<close> gives an integer, \<open>JSON.parse\<close> gives a
  finite double or, on overflow (\<open>1e999\<close>), an infinity. Neither gives NaN, so NaN is not
  a value of the type. A finite double is a rational; the store only compares numbers.
\<close>

datatype number = NegInfinity | Finite rat | Infinity

text \<open>The value \<open>JSON.parse\<close> returns for a text.\<close>

datatype json =
    JNull
  | JBool bool
  | JNumber number
  | JString jsstring
  | JArray "json list"
  | JObject "(jsstring \<times> json) list"

datatype jstype = TUndefined | TObject | TBoolean | TNumber | TString

text \<open>\<open>typeof v\<close>; \<open>None\<close> is \<open>undefined\<close>, the value of a property that is absent.\<close>

fun typeof :: "json option \<Rightarrow> jstype" where
  "typeof None = TUndefined"
| "typeof (Some JNull) = TObject"
| "typeof (Some (JBool b)) = TBoolean"
| "typeof (Some (JNumber n)) = TNumber"
| "typeof (Some (JString s)) = TString"
| "typeof (Some (JArray xs)) = TObject"
| "typeof (Some (JObject ps)) = TObject"

text \<open>Truthiness (ToBoolean), as \<open>!v\<close>, \<open>v && ...\<close> and \<open>Boolean(v)\<close> read it.\<close>

fun truthy :: "json option \<Rightarrow> bool" where
  "truthy None = False"
| "truthy (Some JNull) = False"
| "truthy (Some (JBool b)) = b"
| "truthy (Some (JNumber n)) = (n \<noteq> Finite 0)"
| "truthy (Some (JString s)) = (s \<noteq> [])"
| "truthy (Some (JArray xs)) = True"
| "truthy (Some (JObject ps)) = True"

text \<open>
  The property read \<open>t.k\<close> for the names the store reads (\<open>id\<close>, \<open>title\<close>,
  \<open>completed\<close>, \<open>createdAt\<close>). In an object the last member with the key wins, as
  \<open>JSON.parse\<close> builds it; an array has indices and \<open>length\<close> only, and a primitive has
  none of the four names.
\<close>

fun getProp :: "json \<Rightarrow> jsstring \<Rightarrow> json option" where
  "getProp (JObject ps) k = map_of (rev ps) k"
| "getProp v k = None"

text \<open>A string or \<open>null\<close>, as \<open>editingId\<close> and a validation result are.\<close>

definition truthyS :: "jsstring option \<Rightarrow> bool" where
  "truthyS v = truthy (map_option JString v)"

section \<open>The task and the store\<close>

definition validateTitle :: "jsstring \<Rightarrow> jsstring option" where
  "validateTitle title =
     (let trimmed = trim title in
      if \<not> truthy (Some (JString trimmed)) then Some (js ''Please type a task name.'')
      else if length trimmed > 120 then Some (js ''Task name is too long (max 120 chars).'')
      else None)"

record todo =
  id' :: jsstring
  title :: jsstring
  completed :: bool
  createdAt :: number

text \<open>
  The component state of \<open>App\<close>. The filter is the string the source keeps
  (\<open>all\<close>, \<open>active\<close>, \<open>completed\<close>); \<open>editingId\<close> is \<open>null\<close> when no task is being
  edited; \<open>error\<close> is the empty string when there is no message.
\<close>

record state =
  todos :: "todo list"
  newTitle :: jsstring
  editingId :: "jsstring option"
  editingTitle :: jsstring
  filter' :: jsstring
  error :: jsstring

text \<open>
  What an operation reads from its environment: \<open>now k\<close> is what the \<open>k\<close>-th call of
  \<open>Date.now()\<close> during the operation returns (epoch milliseconds), and \<open>random36\<close> is the
  string \<open>Math.random().toString(36)\<close>.
\<close>

record env =
  now :: "nat \<Rightarrow> int"
  random36 :: jsstring

definition digit36 :: "nat \<Rightarrow> 16 word" where
  "digit36 d = (if d < 10 then 0x30 + of_nat d else 0x61 + of_nat (d - 10))"

fun digits36 :: "nat \<Rightarrow> jsstring" where
  "digits36 n = (if n < 36 then [digit36 n] else digits36 (n div 36) @ [digit36 (n mod 36)])"

declare digits36.simps [simp del]

text \<open>\<open>Number.prototype.toString(36)\<close> of an integer.\<close>

definition toString36 :: "int \<Rightarrow> jsstring" where
  "toString36 i = (if i < 0 then 0x2D # digits36 (nat (- i)) else digits36 (nat i))"

definition slice :: "nat \<Rightarrow> nat \<Rightarrow> jsstring \<Rightarrow> jsstring" where
  "slice b e s = take (e - b) (drop b s)"

definition generateId :: "env \<Rightarrow> jsstring" where
  "generateId e = toString36 (now e 0) @ js ''_'' @ slice 2 10 (random36 e)"

section \<open>Operations\<close>

definition addTodo :: "env \<Rightarrow> state \<Rightarrow> state" where
  "addTodo e s =
     (let validationError = validateTitle (newTitle s) in
      if truthyS validationError then s\<lparr>error := the validationError\<rparr>
      else
        let title' = trim (newTitle s);
            next = \<lparr>id' = generateId e, title = title', completed = False,
                    createdAt = Finite (of_int (now e 1))\<rparr>
        in s\<lparr>todos := todos s @ [next], newTitle := [], error := []\<rparr>)"

definition startEdit :: "todo \<Rightarrow> state \<Rightarrow> state" where
  "startEdit t s = s\<lparr>editingId := Some (id' t), editingTitle := title t, error := []\<rparr>"

definition cancelEdit :: "state \<Rightarrow> state" where
  "cancelEdit s = s\<lparr>editingId := None, editingTitle := [], error := []\<rparr>"

definition commitEdit :: "state \<Rightarrow> state" where
  "commitEdit s =
     (let validationError = validateTitle (editingTitle s) in
      if truthyS validationError then s\<lparr>error := the validationError\<rparr>
      else
        let nextTitle = trim (editingTitle s)
        in s\<lparr>todos := map (\<lambda>t. if Some (id' t) = editingId s then t\<lparr>title := nextTitle\<rparr> else t)
                           (todos s),
              editingId := None, editingTitle := [], error := []\<rparr>)"

definition deleteTodo :: "jsstring \<Rightarrow> state \<Rightarrow> state" where
  "deleteTodo i s =
     (let s' = s\<lparr>todos := filter (\<lambda>t. id' t \<noteq> i) (todos s)\<rparr>
      in if editingId s = Some i then cancelEdit s' else s')"

definition toggleCompleted :: "jsstring \<Rightarrow> state \<Rightarrow> state" where
  "toggleCompleted i s =
     s\<lparr>todos := map (\<lambda>t. if id' t = i then t\<lparr>completed := \<not> completed t\<rparr> else t) (todos s)\<rparr>"

definition clearCompleted :: "state \<Rightarrow> state" where
  "clearCompleted s =
     (let s' = s\<lparr>todos := filter (\<lambda>t. \<not> completed t) (todos s)\<rparr>
      in if truthyS (editingId s) then
           (let stillExists = list_ex (\<lambda>t. Some (id' t) = editingId s \<and> \<not> completed t) (todos s)
            in if \<not> stillExists then cancelEdit s' else s')
         else s')"

record counts =
  total' :: int
  completed' :: int
  active :: int

definition getCounts :: "todo list \<Rightarrow> counts" where
  "getCounts ts =
     (let n = int (length ts);
          done = int (length (filter (\<lambda>t. completed t) ts))
      in \<lparr>total' = n, completed' = done, active = n - done\<rparr>)"

section \<open>Rehydration and persistence\<close>

text \<open>
  The value read from the storage slot, as \<open>parseStoredTodos\<close> receives it: nothing
  (\<open>null\<close>, or \<open>undefined\<close> without a storage), the empty text, or a text that is not empty.
  A text is represented by what \<open>JSON.parse\<close> makes of it: \<open>None\<close> when it throws a
  SyntaxError, the parsed value otherwise.
\<close>

datatype persisted = Missing | Empty | Text "json option"

text \<open>The filter callback of \<open>parseStoredTodos\<close>.\<close>

definition conforming :: "json \<Rightarrow> bool" where
  "conforming t \<longleftrightarrow>
     truthy (Some t) \<and> typeof (Some t) = TObject
     \<and> typeof (getProp t (js ''id'')) = TString
     \<and> typeof (getProp t (js ''title'')) = TString
     \<and> typeof (getProp t (js ''completed'')) = TBoolean"

text \<open>
  The string carried by a property that the filter has found to be a string; values of
  another type do not reach it.
\<close>

fun stringOf :: "json option \<Rightarrow> jsstring" where
  "stringOf (Some (JString s)) = s"
| "stringOf v = []"

text \<open>
  The map callback, run over the kept elements from left to right. Each element without
  a numeric \<open>createdAt\<close> calls \<open>Date.now()\<close> once, so the calls are counted: \<open>clock k\<close>
  is the reading of the \<open>k\<close>-th call during the load.
\<close>

fun mapTodos :: "(nat \<Rightarrow> int) \<Rightarrow> nat \<Rightarrow> json list \<Rightarrow> todo list" where
  "mapTodos clock k [] = []"
| "mapTodos clock k (t # ts) =
     (if typeof (getProp t (js ''createdAt'')) = TNumber then
        \<lparr>id' = stringOf (getProp t (js ''id'')),
         title = stringOf (getProp t (js ''title'')),
         completed = truthy (getProp t (js ''completed'')),
         createdAt = (case getProp t (js ''createdAt'') of Some (JNumber n) \<Rightarrow> n | _ \<Rightarrow> Finite 0)\<rparr>
        # mapTodos clock k ts
      else
        \<lparr>id' = stringOf (getProp t (js ''id'')),
         title = stringOf (getProp t (js ''title'')),
         completed = truthy (getProp t (js ''completed'')),
         createdAt = Finite (of_int (clock k))\<rparr>
        # mapTodos clock (Suc k) ts)"

text \<open>An element whose \<open>createdAt\<close> is missing or is not a number.\<close>

abbreviation lacksStamp :: "json \<Rightarrow> bool" where
  "lacksStamp x \<equiv> typeof (getProp x (js ''createdAt'')) \<noteq> TNumber"

text \<open>
  \<open>parseStoredTodos\<close>: the falsy check, then \<open>JSON.parse\<close> under \<open>try\<close> (a SyntaxError
  is caught and gives the empty array), \<open>Array.isArray\<close>, filter and map.
\<close>

definition parseStoredTodos :: "(nat \<Rightarrow> int) \<Rightarrow> persisted \<Rightarrow> todo list" where
  "parseStoredTodos clock v =
     (case v of
        Missing \<Rightarrow> []
      | Empty \<Rightarrow> []
      | Text None \<Rightarrow> []
      | Text (Some parsed) \<Rightarrow>
          (case parsed of
             JArray xs \<Rightarrow> mapTodos clock 0 (filter conforming xs)
           | _ \<Rightarrow> []))"

text \<open>
  \<open>JSON.stringify(todos)\<close>, as the value its text denotes. A task object has its four
  properties in the order \<open>id\<close>, \<open>title\<close>, \<open>completed\<close>, \<open>createdAt\<close>; a number that is not
  finite is written as \<open>null\<close>.
\<close>

definition stringifyNumber :: "number \<Rightarrow> json" where
  "stringifyNumber n = (case n of Finite r \<Rightarrow> JNumber (Finite r) | _ \<Rightarrow> JNull)"

definition stringifyTodo :: "todo \<Rightarrow> json" where
  "stringifyTodo t =
     JObject [(js ''id'', JString (id' t)), (js ''title'', JString (title t)),
              (js ''completed'', JBool (completed t)),
              (js ''createdAt'', stringifyNumber (createdAt t))]"

definition JSON_stringify :: "todo list \<Rightarrow> json" where
  "JSON_stringify ts = JArray (map stringifyTodo ts)"

text \<open>The slot after the persistence effect has written the collection.\<close>

definition persist :: "todo list \<Rightarrow> persisted" where
  "persist ts = Text (Some (JSON_stringify ts))"

section \<open>Filtered views\<close>

text \<open>
  The comparator of the sort is \<open>a.createdAt - b.createdAt\<close>. The sort reads only whether
  the result is below zero, above zero, or neither; the difference of two equal infinities
  is NaN, which the sort takes as zero. The difference of two finite doubles has the sign
  of the exact difference.
\<close>

datatype sign = Negative | Zero | Positive | NaN

fun minusSign :: "number \<Rightarrow> number \<Rightarrow> sign" where
  "minusSign (Finite x) (Finite y) = (if x < y then Negative else if y < x then Positive else Zero)"
| "minusSign (Finite x) Infinity = Negative"
| "minusSign (Finite x) NegInfinity = Positive"
| "minusSign Infinity Infinity = NaN"
| "minusSign Infinity b = Positive"
| "minusSign NegInfinity NegInfinity = NaN"
| "minusSign NegInfinity b = Negative"

definition compareFn :: "todo \<Rightarrow> todo \<Rightarrow> sign" where
  "compareFn a b = minusSign (createdAt a) (createdAt b)"

text \<open>
  \<open>Array.prototype.sort\<close> is stable, and \<open>x\<close> goes behind \<open>y\<close> exactly when the
  comparator of \<open>x\<close> and \<open>y\<close> is above zero. For a comparator that is an order this fixes
  the result; it is computed here by insertion from the right.
\<close>

fun insertBy :: "('a \<Rightarrow> 'a \<Rightarrow> sign) \<Rightarrow> 'a \<Rightarrow> 'a list \<Rightarrow> 'a list" where
  "insertBy cmp x [] = [x]"
| "insertBy cmp x (y # ys) = (if cmp x y = Positive then y # insertBy cmp x ys else x # y # ys)"

definition sortBy :: "('a \<Rightarrow> 'a \<Rightarrow> sign) \<Rightarrow> 'a list \<Rightarrow> 'a list" where
  "sortBy cmp xs = foldr (insertBy cmp) xs []"

text \<open>
  \<open>sort\<close> works in place, so the arrays are kept in a store: an array is an address, the
  store lists the contents of the arrays allocated so far. The spread \<open>[...a]\<close> and
  \<open>filter\<close> allocate a new array, \<open>sort\<close> overwrites the array it is called on and
  returns it.
\<close>

type_synonym arrays = "todo list list"

definition spread :: "nat \<Rightarrow> arrays \<Rightarrow> nat \<times> arrays" where
  "spread a h = (length h, h @ [h ! a])"

definition sortArray :: "(todo \<Rightarrow> todo \<Rightarrow> sign) \<Rightarrow> nat \<Rightarrow> arrays \<Rightarrow> nat \<times> arrays" where
  "sortArray cmp a h = (a, h[a := sortBy cmp (h ! a)])"

definition filterArray :: "(todo \<Rightarrow> bool) \<Rightarrow> nat \<Rightarrow> arrays \<Rightarrow> nat \<times> arrays" where
  "filterArray p a h = (length h, h @ [filter p (h ! a)])"

text \<open>
  The body of the \<open>visibleTodos\<close> memo: \<open>flt\<close> is the filter of the state and \<open>a\<close> the
  array of the state's \<open>todos\<close>.
\<close>

definition visibleTodos :: "jsstring \<Rightarrow> nat \<Rightarrow> arrays \<Rightarrow> nat \<times> arrays" where
  "visibleTodos flt a h =
     (let (copy, h1) = spread a h;
          (sorted, h2) = sortArray compareFn copy h1
      in if flt = js ''active'' then filterArray (\<lambda>t. \<not> completed t) sorted h2
         else if flt = js ''completed'' then filterArray (\<lambda>t. completed t) sorted h2
         else (sorted, h2))"

text \<open>The contents of the array an expression returned.\<close>

definition contents :: "nat \<times> arrays \<Rightarrow> todo list" where
  "contents r = snd r ! fst r"

text \<open>The view of a collection that is the only array of the store.\<close>

definition viewOf :: "jsstring \<Rightarrow> todo list \<Rightarrow> todo list" where
  "viewOf flt ts = contents (visibleTodos flt 0 [ts])"

text \<open>The order of the numbers.\<close>

fun numLe :: "number \<Rightarrow> number \<Rightarrow> bool" where
  "numLe NegInfinity b = True"
| "numLe a Infinity = True"
| "numLe (Finite x) (Finite y) = (x \<le> y)"
| "numLe a b = False"

text \<open>Ascending by \<open>createdAt\<close>.\<close>

abbreviation byCreatedAt :: "todo \<Rightarrow> todo \<Rightarrow> bool" where
  "byCreatedAt x y \<equiv> numLe (createdAt x) (createdAt y)"

section \<open>Sessions\<close>

text \<open>
  The events of the page, each with the handler it runs: typing into the two inputs, the
  two forms, and the buttons of a task and of the footer.
\<close>

datatype action =
    SetNewTitle jsstring
  | AddTodo env
  | StartEdit todo
  | SetEditingTitle jsstring
  | CancelEdit
  | CommitEdit
  | DeleteTodo jsstring
  | ToggleCompleted jsstring
  | ClearCompleted
  | SetFilter jsstring

fun step :: "state \<Rightarrow> action \<Rightarrow> state" where
  "step s (SetNewTitle v) = s\<lparr>newTitle := v\<rparr>"
| "step s (AddTodo e) = addTodo e s"
| "step s (StartEdit t) = startEdit t s"
| "step s (SetEditingTitle v) = s\<lparr>editingTitle := v\<rparr>"
| "step s CancelEdit = cancelEdit s"
| "step s CommitEdit = commitEdit s"
| "step s (DeleteTodo i) = deleteTodo i s"
| "step s (ToggleCompleted i) = toggleCompleted i s"
| "step s ClearCompleted = clearCompleted s"
| "step s (SetFilter f) = s\<lparr>filter' := f\<rparr>"

definition run :: "state \<Rightarrow> action list \<Rightarrow> state" where
  "run s acts = foldl step s acts"

text \<open>A number that \<open>JSON.stringify\<close> writes as a number.\<close>

fun isFinite :: "number \<Rightarrow> bool" where
  "isFinite (Finite r) = True"
| "isFinite n = False"

section \<open>Example inputs\<close>

text \<open>The store of a session that starts on an empty storage slot.\<close>

definition init :: state where
  "init = \<lparr>todos = parseStoredTodos (\<lambda>k. 0) Missing, newTitle = [], editingId = None,
            editingTitle = [], filter' = js ''all'', error = []\<rparr>"

text \<open>A clock that reads 1000 at its first call and one more at each later call, and a random draw.\<close>

definition env0 :: env where
  "env0 = \<lparr>now = (\<lambda>k. 1000 + int k), random36 = js ''0.4fzyo82mvyr''\<rparr>"

text \<open>Tasks: a completed one with a late stamp, an active one with an early stamp, the task that
  Create builds from the title \<open>Buy milk\<close> under \<open>env0\<close>, and one with an infinite stamp.\<close>

definition taskA :: todo where
  "taskA = \<lparr>id' = js ''a'', title = js ''Buy milk'', completed = True, createdAt = Finite 5000\<rparr>"

definition taskB :: todo where
  "taskB = \<lparr>id' = js ''b'', title = js ''Write report'', completed = False, createdAt = Finite 20\<rparr>"

definition newTask :: todo where
  "newTask = \<lparr>id' = js ''rs_4fzyo82m'', title = js ''Buy milk'', completed = False,
               createdAt = Finite 1001\<rparr>"

definition farTask :: todo where
  "farTask = \<lparr>id' = js ''far'', title = js ''Overflow'', completed = False, createdAt = Infinity\<rparr>"

text \<open>Persisted elements: a conforming one, one whose \<open>createdAt\<close> is a string, and one whose
  \<open>id\<close> is a number and whose \<open>completed\<close> is missing.\<close>

definition storedGood :: json where
  "storedGood = JObject [(js ''id'', JString (js ''k1'')), (js ''title'', JString (js ''Buy milk'')),
                         (js ''completed'', JBool True), (js ''createdAt'', JNumber (Finite 5))]"

definition storedNoStamp :: json where
  "storedNoStamp = JObject [(js ''id'', JString (js ''k2'')), (js ''title'', JString (js ''x'')),
                            (js ''completed'', JBool False), (js ''createdAt'', JString (js ''soon''))]"

definition storedNumericId :: json where
  "storedNumericId = JObject [(js ''id'', JNumber (Finite 1)), (js ''title'', JString (js ''x''))]"

text \<open>A second task with the id of \<open>taskA\<close>.\<close>

definition twinTask :: todo where
  "twinTask = \<lparr>id' = js ''a'', title = js ''Call home'', completed = False, createdAt = Finite 30\<rparr>"

text \<open>A persisted completed task whose id is the empty string, and the task it rehydrates to.\<close>

definition storedEmptyId :: json where
  "storedEmptyId = JObject [(js ''id'', JString []), (js ''title'', JString (js ''x'')),
                            (js ''completed'', JBool True), (js ''createdAt'', JNumber (Finite 0))]"

definition emptyIdTask :: todo where
  "emptyIdTask = \<lparr>id' = [], title = js ''x'', completed = True, createdAt = Finite 0\<rparr>"


definition stale :: state where
  "stale = init\<lparr>todos := [taskA], editingId := Some (js ''gone''),
                 editingTitle := js ''  Buy milk ''\<rparr>"

section \<open>Validation facts\<close>

lemma truthyS_simps [simp]:
  "truthyS None = False" "truthyS (Some str) = (str \<noteq> [])"
  by (simp_all add: truthyS_def)

lemma validateTitle_cases:
  "validateTitle raw =
     (if trim raw = [] then Some (js ''Please type a task name.'')
      else if 120 < length (trim raw) then Some (js ''Task name is too long (max 120 chars).'')
      else None)"
  by (simp add: validateTitle_def Let_def)

lemma validateTitle_truthy:
  "truthyS (validateTitle raw) \<longleftrightarrow> trim raw = [] \<or> 120 < length (trim raw)"
  by (simp add: validateTitle_cases js_def)

lemma validateTitle_None:
  "validateTitle raw = None \<longleftrightarrow> trim raw \<noteq> [] \<and> length (trim raw) \<le> 120"
  by (simp add: validateTitle_cases)

lemma init_simps [simp]:
  "todos init = []" "newTitle init = []" "editingId init = None" "editingTitle init = []"
  "filter' init = js ''all''" "error init = []"
  by (simp_all add: init_def parseStoredTodos_def)

lemma trim_spaces: "trim (js ''   '') = []"
  by (simp add: trim_def js_def isWhiteSpace_def)

section \<open>Create\<close>

text \<open>
  Claim C2. When the trimmed title is empty (so also for a title of white space only) or
  longer than 120 code units, \<open>addTodo\<close> changes nothing but the error message: the
  collection and every other field of the store stay as they were, and the message is the
  non-empty text of the validation rule that failed.
\<close>

theorem create_rejects_invalid_title:
  assumes "trim (newTitle s) = [] \<or> 120 < length (trim (newTitle s))"
  shows "todos (addTodo e s) = todos s
       \<and> addTodo e s = s\<lparr>error := error (addTodo e s)\<rparr>
       \<and> error (addTodo e s) \<noteq> []
       \<and> error (addTodo e s) =
           (if trim (newTitle s) = [] then js ''Please type a task name.''
            else js ''Task name is too long (max 120 chars).'')"
proof -
  from assms have t: "truthyS (validateTitle (newTitle s))"
    by (simp add: validateTitle_truthy)
  have v: "the (validateTitle (newTitle s)) =
           (if trim (newTitle s) = [] then js ''Please type a task name.''
            else js ''Task name is too long (max 120 chars).'')"
    using assms by (auto simp: validateTitle_cases)
  have a: "addTodo e s = s\<lparr>error := the (validateTitle (newTitle s))\<rparr>"
    using t by (simp add: addTodo_def Let_def)
  show ?thesis
    unfolding a v by (simp add: js_def)
qed

theorem create_rejects_invalid_title_witness:
  "(trim (newTitle (init\<lparr>newTitle := js ''   ''\<rparr>)) = []
      \<or> 120 < length (trim (newTitle (init\<lparr>newTitle := js ''   ''\<rparr>))))
   \<and> todos (addTodo env0 (init\<lparr>newTitle := js ''   ''\<rparr>)) = []
   \<and> error (addTodo env0 (init\<lparr>newTitle := js ''   ''\<rparr>)) = js ''Please type a task name.''"
  using create_rejects_invalid_title [of "init\<lparr>newTitle := js ''   ''\<rparr>" env0]
  by (simp add: trim_spaces)

section \<open>Facts about sorting and views\<close>


lemma minusSign_Positive: "minusSign a b = Positive \<longleftrightarrow> \<not> numLe a b"
  by (cases a; cases b) auto

lemma numLe_refl: "numLe a a"
  by (cases a) auto

lemma numLe_trans: "numLe a b \<Longrightarrow> numLe b c \<Longrightarrow> numLe a c"
  by (cases a; cases b; cases c) auto

lemma numLe_total: "numLe a b \<or> numLe b a"
  by (cases a; cases b) auto

lemma compareFn_Positive: "compareFn x y = Positive \<longleftrightarrow> \<not> numLe (createdAt x) (createdAt y)"
  by (simp add: compareFn_def minusSign_Positive)

lemma set_insertBy: "set (insertBy cmp x xs) = insert x (set xs)"
  by (induction xs) auto

lemma set_sortBy: "set (sortBy cmp xs) = set xs"
  unfolding sortBy_def by (induction xs) (auto simp: set_insertBy)

lemma length_insertBy: "length (insertBy cmp x xs) = Suc (length xs)"
  by (induction xs) auto

lemma length_sortBy: "length (sortBy cmp xs) = length xs"
  unfolding sortBy_def by (induction xs) (auto simp: length_insertBy)

lemma sorted_insertBy:
  "sorted_wrt byCreatedAt xs \<Longrightarrow> sorted_wrt byCreatedAt (insertBy compareFn x xs)"
proof (induction xs)
  case Nil
  then show ?case by simp
next
  case (Cons y ys)
  show ?case
  proof (cases "compareFn x y = Positive")
    case True
    then have "numLe (createdAt y) (createdAt x)"
      using numLe_total compareFn_Positive by blast
    with Cons True show ?thesis
      by (auto simp: set_insertBy)
  next
    case False
    then have xy: "numLe (createdAt x) (createdAt y)"
      by (simp add: compareFn_Positive)
    with Cons.prems False show ?thesis
      by (auto intro: numLe_trans)
  qed
qed

lemma sorted_sortBy: "sorted_wrt byCreatedAt (sortBy compareFn xs)"
  unfolding sortBy_def by (induction xs) (auto simp: sorted_insertBy)

lemma insertBy_snoc:
  "numLe (createdAt y) (createdAt x) \<Longrightarrow>
   insertBy compareFn y (zs @ [x]) = insertBy compareFn y zs @ [x]"
  by (induction zs) (auto simp: compareFn_Positive)

lemma sortBy_snoc:
  "\<forall>y\<in>set ys. numLe (createdAt y) (createdAt x) \<Longrightarrow>
   sortBy compareFn (ys @ [x]) = sortBy compareFn ys @ [x]"
  unfolding sortBy_def by (induction ys) (auto simp: insertBy_snoc)

lemma visibleTodos_contents:
  "a < length h \<Longrightarrow> contents (visibleTodos flt a h) =
     (if flt = js ''active'' then filter (\<lambda>t. \<not> completed t) (sortBy compareFn (h ! a))
      else if flt = js ''completed'' then filter (\<lambda>t. completed t) (sortBy compareFn (h ! a))
      else sortBy compareFn (h ! a))"
  by (simp add: visibleTodos_def spread_def sortArray_def filterArray_def contents_def
      nth_append)

lemma visibleTodos_frame:
  "b < length h \<Longrightarrow> snd (visibleTodos flt a h) ! b = h ! b"
  by (simp add: visibleTodos_def spread_def sortArray_def filterArray_def nth_append)

lemma viewOf_eq:
  "viewOf flt ts =
     (if flt = js ''active'' then filter (\<lambda>t. \<not> completed t) (sortBy compareFn ts)
      else if flt = js ''completed'' then filter (\<lambda>t. completed t) (sortBy compareFn ts)
      else sortBy compareFn ts)"
  unfolding viewOf_def by (subst visibleTodos_contents) auto

lemma addTodo_invalid:
  assumes "trim (newTitle s) = [] \<or> 120 < length (trim (newTitle s))"
  shows "addTodo e s = s\<lparr>error := the (validateTitle (newTitle s))\<rparr>"
  using assms by (simp add: addTodo_def Let_def validateTitle_truthy)

lemma addTodo_valid:
  assumes "trim (newTitle s) \<noteq> []" "length (trim (newTitle s)) \<le> 120"
  shows "addTodo e s =
     s\<lparr>todos := todos s @ [\<lparr>id' = generateId e, title = trim (newTitle s), completed = False,
                              createdAt = Finite (of_int (now e 1))\<rparr>],
       newTitle := [], error := []\<rparr>"
proof -
  have "\<not> truthyS (validateTitle (newTitle s))"
    using assms by (simp add: validateTitle_truthy)
  then show ?thesis
    by (simp add: addTodo_def Let_def)
qed

lemma generateId_env0: "generateId env0 = js ''rs_4fzyo82m''"
  by (simp add: generateId_def env0_def toString36_def slice_def js_def
      digits36.simps [of 1000] digits36.simps [of 27] digit36_def)

lemma trim_buy_milk: "trim (js ''  Buy milk '') = js ''Buy milk''"
  by (simp add: trim_def js_def isWhiteSpace_def)

lemma now_env0: "now env0 k = 1000 + int k"
  by (simp add: env0_def)

lemma addTodo_env0:
  assumes "newTitle s = js ''  Buy milk ''"
  shows "todos (addTodo env0 s) = todos s @ [newTask]"
proof -
  have n: "trim (newTitle s) = js ''Buy milk''"
    by (simp add: assms trim_buy_milk)
  have "js ''Buy milk'' \<noteq> []" "length (js ''Buy milk'') \<le> 120"
    by (simp_all add: js_def)
  then have "trim (newTitle s) \<noteq> []" "length (trim (newTitle s)) \<le> 120"
    unfolding n by simp_all
  from addTodo_valid [OF this, of env0] show ?thesis
    by (simp add: n generateId_env0 newTask_def now_env0)
qed

lemma sortBy_two:
  "sortBy compareFn [x, y] = (if numLe (createdAt x) (createdAt y) then [x, y] else [y, x])"
  by (simp add: sortBy_def compareFn_Positive)

text \<open>
  Claim C1, as amended. When the trimmed title is not empty and has at most 120 code units,
  \<open>addTodo\<close> appends exactly one task behind the tasks it found, which stay as they were:
  the task has the trimmed title, is not completed, and carries the reading of the clock as
  \<open>createdAt\<close>. When no task of the collection has a later \<open>createdAt\<close> than this
  reading, the new task is the last of the view that shows all tasks.
\<close>

theorem create_appends_task:
  assumes "trim (newTitle s) \<noteq> []" and "length (trim (newTitle s)) \<le> 120"
  shows "\<exists>t. todos (addTodo e s) = todos s @ [t]
           \<and> id' t = generateId e
           \<and> title t = trim (newTitle s) \<and> completed t = False
           \<and> createdAt t = Finite (of_int (now e 1))
           \<and> ((\<forall>u\<in>set (todos s). numLe (createdAt u) (createdAt t)) \<longrightarrow>
                viewOf (js ''all'') (todos (addTodo e s)) = viewOf (js ''all'') (todos s) @ [t])"
proof -
  let ?t = "\<lparr>id' = generateId e, title = trim (newTitle s), completed = False,
             createdAt = Finite (of_int (now e 1))\<rparr>"
  have a: "todos (addTodo e s) = todos s @ [?t]"
    by (simp add: addTodo_valid [OF assms])
  have v: "viewOf (js ''all'') ts = sortBy compareFn ts" for ts
    by (simp add: viewOf_eq js_def)
  have "viewOf (js ''all'') (todos s @ [?t]) = viewOf (js ''all'') (todos s) @ [?t]"
    if "\<forall>u\<in>set (todos s). numLe (createdAt u) (createdAt ?t)"
    unfolding v using that by (rule sortBy_snoc)
  with a show ?thesis
    by (intro exI [of _ ?t]) simp
qed

theorem create_appends_task_witness:
  "trim (newTitle (init\<lparr>todos := [taskB], newTitle := js ''  Buy milk ''\<rparr>)) \<noteq> []
   \<and> length (trim (newTitle (init\<lparr>todos := [taskB], newTitle := js ''  Buy milk ''\<rparr>))) \<le> 120
   \<and> todos (addTodo env0 (init\<lparr>todos := [taskB], newTitle := js ''  Buy milk ''\<rparr>)) = [taskB, newTask]
   \<and> viewOf (js ''all'') (todos (addTodo env0 (init\<lparr>todos := [taskB], newTitle := js ''  Buy milk ''\<rparr>))) =
       [taskB, newTask]"
proof -
  let ?s = "init\<lparr>todos := [taskB], newTitle := js ''  Buy milk ''\<rparr>"
  have "js ''Buy milk'' \<noteq> []" "length (js ''Buy milk'') \<le> 120"
    by (simp_all add: js_def)
  then have h1: "trim (newTitle ?s) \<noteq> []" and h2: "length (trim (newTitle ?s)) \<le> 120"
    by (simp_all add: trim_buy_milk)
  have le: "numLe (createdAt taskB) (createdAt newTask)"
    by (simp add: taskB_def newTask_def)
  have v: "viewOf (js ''all'') [taskB] = [taskB]"
    by (simp add: viewOf_eq sortBy_def js_def)
  from create_appends_task [OF h1 h2, of env0] le v h1 h2 show ?thesis
    by (auto simp: addTodo_env0)
qed

text \<open>
  The claim as written fails where the collection holds a task with a later \<open>createdAt\<close>
  than the clock gives (a persisted task of the future, or a clock set back): the new task
  is appended but is first in the view.
\<close>

theorem create_not_always_latest:
  "trim (newTitle (init\<lparr>todos := [taskA], newTitle := js ''  Buy milk ''\<rparr>)) = js ''Buy milk''
   \<and> todos (addTodo env0 (init\<lparr>todos := [taskA], newTitle := js ''  Buy milk ''\<rparr>)) = [taskA, newTask]
   \<and> \<not> numLe (createdAt taskA) (createdAt newTask)
   \<and> viewOf (js ''all'') (todos (addTodo env0 (init\<lparr>todos := [taskA], newTitle := js ''  Buy milk ''\<rparr>))) =
       [newTask, taskA]"
proof -
  have le: "\<not> numLe (createdAt taskA) (createdAt newTask)"
    by (simp add: taskA_def newTask_def)
  have v: "viewOf (js ''all'') [taskA, newTask] = [newTask, taskA]"
    using le by (simp add: viewOf_eq sortBy_two js_def)
  show ?thesis
    using le v by (simp add: addTodo_env0 trim_buy_milk)
qed

section \<open>Views\<close>

text \<open>
  Claim C6. For every store of arrays and every collection \<open>a\<close> in it: the tasks of the
  active view and of the completed view together are the tasks of the view of all tasks,
  which are the tasks of the collection; the active view holds the tasks that are not
  completed and the completed view those that are; the view for any filter is in ascending
  order of \<open>createdAt\<close>; and computing a view leaves every array that existed before,
  the collection among them, with the contents it had.
\<close>

theorem views_partition_sorted_pure:
  assumes "a < length h"
  shows "set (contents (visibleTodos (js ''active'') a h))
           \<union> set (contents (visibleTodos (js ''completed'') a h))
         = set (contents (visibleTodos (js ''all'') a h))
       \<and> set (contents (visibleTodos (js ''all'') a h)) = set (h ! a)
       \<and> set (contents (visibleTodos (js ''active'') a h)) = {t \<in> set (h ! a). \<not> completed t}
       \<and> set (contents (visibleTodos (js ''completed'') a h)) = {t \<in> set (h ! a). completed t}
       \<and> sorted_wrt byCreatedAt (contents (visibleTodos flt a h))
       \<and> (\<forall>b<length h. snd (visibleTodos flt a h) ! b = h ! b)"
proof -
  have ne: "js ''all'' \<noteq> js ''active''" "js ''all'' \<noteq> js ''completed''"
    "js ''completed'' \<noteq> js ''active''"
    by (simp_all add: js_def)
  have all: "contents (visibleTodos (js ''all'') a h) = sortBy compareFn (h ! a)"
    using assms ne by (simp add: visibleTodos_contents)
  have act: "contents (visibleTodos (js ''active'') a h)
               = filter (\<lambda>t. \<not> completed t) (sortBy compareFn (h ! a))"
    using assms by (simp add: visibleTodos_contents)
  have com: "contents (visibleTodos (js ''completed'') a h)
               = filter (\<lambda>t. completed t) (sortBy compareFn (h ! a))"
    using assms ne by (simp add: visibleTodos_contents)
  have srt: "sorted_wrt byCreatedAt (contents (visibleTodos flt a h))"
    using assms by (simp add: visibleTodos_contents sorted_sortBy sorted_wrt_filter)
  have frame: "\<forall>b<length h. snd (visibleTodos flt a h) ! b = h ! b"
    by (simp add: visibleTodos_frame)
  have u: "set (contents (visibleTodos (js ''active'') a h))
           \<union> set (contents (visibleTodos (js ''completed'') a h))
         = set (contents (visibleTodos (js ''all'') a h))"
    unfolding all act com by auto
  show ?thesis
    using u srt frame unfolding all act com by (simp add: set_sortBy)
qed

theorem views_partition_sorted_pure_witness:
  "(0::nat) < length [[taskA, taskB]]
   \<and> contents (visibleTodos (js ''all'') 0 [[taskA, taskB]]) = [taskB, taskA]
   \<and> contents (visibleTodos (js ''active'') 0 [[taskA, taskB]]) = [taskB]
   \<and> contents (visibleTodos (js ''completed'') 0 [[taskA, taskB]]) = [taskA]
   \<and> set (contents (visibleTodos (js ''active'') 0 [[taskA, taskB]]))
         \<union> set (contents (visibleTodos (js ''completed'') 0 [[taskA, taskB]]))
       = set (contents (visibleTodos (js ''all'') 0 [[taskA, taskB]]))
   \<and> sorted_wrt byCreatedAt (contents (visibleTodos (js ''all'') 0 [[taskA, taskB]]))
   \<and> snd (visibleTodos (js ''all'') 0 [[taskA, taskB]]) ! 0 = [taskA, taskB]"
proof -
  have h: "(0::nat) < length [[taskA, taskB]]"
    by simp
  have ne: "js ''all'' \<noteq> js ''active''" "js ''all'' \<noteq> js ''completed''"
    "js ''completed'' \<noteq> js ''active''"
    by (simp_all add: js_def)
  have le: "\<not> numLe (createdAt taskA) (createdAt taskB)"
    by (simp add: taskA_def taskB_def)
  have c: "completed taskA" "\<not> completed taskB"
    by (simp_all add: taskA_def taskB_def)
  have v: "contents (visibleTodos (js ''all'') 0 [[taskA, taskB]]) = [taskB, taskA]"
    "contents (visibleTodos (js ''active'') 0 [[taskA, taskB]]) = [taskB]"
    "contents (visibleTodos (js ''completed'') 0 [[taskA, taskB]]) = [taskA]"
    using ne le c by (simp_all add: visibleTodos_contents sortBy_two)
  note t = views_partition_sorted_pure [OF h, of "js ''all''"]
  from t have frame: "snd (visibleTodos (js ''all'') 0 [[taskA, taskB]]) ! 0 = [taskA, taskB]"
    by simp
  from t h v frame show ?thesis
    by blast
qed

section \<open>Rehydration\<close>

lemma keys_distinct:
  "js ''id'' \<noteq> js ''title''" "js ''id'' \<noteq> js ''completed''" "js ''id'' \<noteq> js ''createdAt''"
  "js ''title'' \<noteq> js ''completed''" "js ''title'' \<noteq> js ''createdAt''"
  "js ''completed'' \<noteq> js ''createdAt''"
  "js ''title'' \<noteq> js ''id''" "js ''completed'' \<noteq> js ''id''" "js ''createdAt'' \<noteq> js ''id''"
  "js ''completed'' \<noteq> js ''title''" "js ''createdAt'' \<noteq> js ''title''"
  "js ''createdAt'' \<noteq> js ''completed''"
  by (simp_all add: js_def)

lemma getProp_stringifyTodo:
  "getProp (stringifyTodo t) (js ''id'') = Some (JString (id' t))"
  "getProp (stringifyTodo t) (js ''title'') = Some (JString (title t))"
  "getProp (stringifyTodo t) (js ''completed'') = Some (JBool (completed t))"
  "getProp (stringifyTodo t) (js ''createdAt'') = Some (stringifyNumber (createdAt t))"
  by (simp_all add: stringifyTodo_def keys_distinct)

lemma conforming_stringifyTodo: "conforming (stringifyTodo t)"
  by (simp add: conforming_def getProp_stringifyTodo) (simp add: stringifyTodo_def)

lemma filter_conforming_stringify:
  "filter conforming (map stringifyTodo ts) = map stringifyTodo ts"
  by (induction ts) (simp_all add: conforming_stringifyTodo)

lemma stringifyNumber_finite: "isFinite n \<Longrightarrow> stringifyNumber n = JNumber n"
  by (cases n) (simp_all add: stringifyNumber_def)

lemma mapTodos_stringify:
  "\<forall>t\<in>set ts. isFinite (createdAt t) \<Longrightarrow> mapTodos clock k (map stringifyTodo ts) = ts"
  by (induction ts arbitrary: k) (simp_all add: getProp_stringifyTodo stringifyNumber_finite)

lemma roundtrip_finite:
  "\<forall>t\<in>set ts. isFinite (createdAt t) \<Longrightarrow> parseStoredTodos clock (persist ts) = ts"
  by (simp add: parseStoredTodos_def persist_def JSON_stringify_def
      filter_conforming_stringify mapTodos_stringify)

lemma step_finite:
  assumes "\<forall>t\<in>set (todos s). isFinite (createdAt t)"
  shows "\<forall>t\<in>set (todos (step s a)). isFinite (createdAt t)"
proof (cases a)
  case (AddTodo e)
  then show ?thesis
    using assms by (auto simp: addTodo_def Let_def)
next
  case CommitEdit
  then show ?thesis
    using assms by (auto simp: commitEdit_def Let_def)
next
  case (DeleteTodo i)
  then show ?thesis
    using assms by (auto simp: deleteTodo_def cancelEdit_def Let_def)
next
  case (ToggleCompleted i)
  then show ?thesis
    using assms by (auto simp: toggleCompleted_def)
next
  case ClearCompleted
  then show ?thesis
    using assms by (auto simp: clearCompleted_def cancelEdit_def Let_def)
qed (use assms in \<open>simp_all add: startEdit_def cancelEdit_def\<close>)

lemma run_finite:
  "\<forall>t\<in>set (todos s). isFinite (createdAt t) \<Longrightarrow>
   \<forall>t\<in>set (todos (run s acts)). isFinite (createdAt t)"
  unfolding run_def
proof (induction acts arbitrary: s)
  case Nil
  then show ?case by simp
next
  case (Cons a acts)
  from Cons.prems have "\<forall>t\<in>set (todos (step s a)). isFinite (createdAt t)"
    by (rule step_finite)
  then show ?case
    using Cons.IH by simp
qed

text \<open>
  Claim C3. Whatever events a session that starts on the empty collection has run (valid or
  rejected Create and CommitEdit, Toggle, Delete, and the others), writing its collection
  to the slot and rehydrating the slot gives the collection back: the same tasks in the
  same order with the same \<open>id\<close>, \<open>title\<close>, \<open>completed\<close> and \<open>createdAt\<close>, for
  any clock at load.
\<close>

theorem persist_rehydrate_roundtrip:
  "parseStoredTodos clock (persist (todos (run init acts))) = todos (run init acts)"
proof -
  have "\<forall>t\<in>set (todos (run init acts)). isFinite (createdAt t)"
    by (rule run_finite) simp
  then show ?thesis
    by (rule roundtrip_finite)
qed

theorem persist_rehydrate_roundtrip_witness:
  "todos (run init [SetNewTitle (js ''  Buy milk ''), AddTodo env0,
                    ToggleCompleted (js ''rs_4fzyo82m'')]) = [newTask\<lparr>completed := True\<rparr>]
   \<and> parseStoredTodos (\<lambda>k. 7) (persist [newTask\<lparr>completed := True\<rparr>]) = [newTask\<lparr>completed := True\<rparr>]"
proof -
  let ?acts = "[SetNewTitle (js ''  Buy milk ''), AddTodo env0, ToggleCompleted (js ''rs_4fzyo82m'')]"
  have a: "todos (addTodo env0 (init\<lparr>newTitle := js ''  Buy milk ''\<rparr>)) = [newTask]"
    by (simp add: addTodo_env0)
  have r: "todos (run init ?acts) = [newTask\<lparr>completed := True\<rparr>]"
    by (simp add: run_def toggleCompleted_def a) (simp add: newTask_def)
  from persist_rehydrate_roundtrip [of "\<lambda>k. 7" ?acts] r show ?thesis
    by simp
qed

text \<open>
  The restriction to collections that the operations built is needed: a task rehydrated
  from \<open>1e999\<close> carries an infinite \<open>createdAt\<close>, which is written as \<open>null\<close> and
  comes back as the time of the load.
\<close>

lemma roundtrip_loses_infinity:
  "parseStoredTodos (\<lambda>k. 7) (persist [farTask]) = [farTask\<lparr>createdAt := Finite 7\<rparr>]"
  by (simp add: parseStoredTodos_def persist_def JSON_stringify_def conforming_stringifyTodo
      getProp_stringifyTodo)
     (simp add: farTask_def stringifyNumber_def)

lemma length_mapTodos: "length (mapTodos clock k ys) = length ys"
  by (induction ys arbitrary: k) simp_all

lemma typeof_TNumber: "typeof v = TNumber \<longleftrightarrow> (\<exists>n. v = Some (JNumber n))"
  by (cases v rule: typeof.cases) simp_all

lemma typeof_TString: "typeof v = TString \<longleftrightarrow> (\<exists>s. v = Some (JString s))"
  by (cases v rule: typeof.cases) simp_all

lemma typeof_TBoolean: "typeof v = TBoolean \<longleftrightarrow> (\<exists>b. v = Some (JBool b))"
  by (cases v rule: typeof.cases) simp_all

lemma mapTodos_nth:
  "i < length ys \<Longrightarrow>
   mapTodos clock k ys ! i =
     \<lparr>id' = stringOf (getProp (ys ! i) (js ''id'')),
      title = stringOf (getProp (ys ! i) (js ''title'')),
      completed = truthy (getProp (ys ! i) (js ''completed'')),
      createdAt = (case getProp (ys ! i) (js ''createdAt'') of
                     Some (JNumber n) \<Rightarrow> n
                   | _ \<Rightarrow> Finite (of_int (clock (k + length (filter lacksStamp (take i ys))))))\<rparr>"
proof (induction ys arbitrary: k i)
  case Nil
  then show ?case by simp
next
  case (Cons y ys)
  show ?case
  proof (cases i)
    case 0
    then show ?thesis
      by (auto simp: typeof_TNumber split: option.splits json.splits)
  next
    case (Suc j)
    with Cons.prems have j: "j < length ys"
      by simp
    show ?thesis
      unfolding Suc using Cons.IH [OF j]
      by (simp split: option.splits json.splits)
  qed
qed

lemma conforming_iff:
  "conforming x \<longleftrightarrow>
     (\<exists>ps i t c. x = JObject ps
        \<and> map_of (rev ps) (js ''id'') = Some (JString i)
        \<and> map_of (rev ps) (js ''title'') = Some (JString t)
        \<and> map_of (rev ps) (js ''completed'') = Some (JBool c))"
  by (cases x) (auto simp: conforming_def typeof_TString typeof_TBoolean)

lemma parse_array:
  "parseStoredTodos clock (Text (Some (JArray xs))) = mapTodos clock 0 (filter conforming xs)"
  by (simp add: parseStoredTodos_def)

text \<open>
  Claim C4. \<open>parseStoredTodos\<close> returns a collection for every value of the slot, the
  SyntaxError of \<open>JSON.parse\<close> being caught: the empty collection for a missing value, an
  empty text, a text that does not parse, and a parsed value that is not an array. For an
  array it returns one task for each conforming element, in order, with the \<open>id\<close>,
  \<open>title\<close> and \<open>completed\<close> of the element; \<open>createdAt\<close> is the element's when that
  is a number, and otherwise the reading of the clock at that moment of the load (one
  reading for each element that needs one). An element conforms exactly when it is an
  object whose \<open>id\<close> and \<open>title\<close> are strings and whose \<open>completed\<close> is a boolean;
  the other elements are dropped.
\<close>

theorem rehydration_never_fails:
  "parseStoredTodos clock Missing = []
   \<and> parseStoredTodos clock Empty = []
   \<and> parseStoredTodos clock (Text None) = []
   \<and> ((\<forall>xs. j \<noteq> JArray xs) \<longrightarrow> parseStoredTodos clock (Text (Some j)) = [])
   \<and> length (parseStoredTodos clock (Text (Some (JArray xs)))) = length (filter conforming xs)
   \<and> (\<forall>i<length (filter conforming xs).
         getProp (filter conforming xs ! i) (js ''id'')
           = Some (JString (id' (parseStoredTodos clock (Text (Some (JArray xs))) ! i)))
       \<and> getProp (filter conforming xs ! i) (js ''title'')
           = Some (JString (title (parseStoredTodos clock (Text (Some (JArray xs))) ! i)))
       \<and> getProp (filter conforming xs ! i) (js ''completed'')
           = Some (JBool (completed (parseStoredTodos clock (Text (Some (JArray xs))) ! i)))
       \<and> createdAt (parseStoredTodos clock (Text (Some (JArray xs))) ! i)
           = (case getProp (filter conforming xs ! i) (js ''createdAt'') of
                Some (JNumber n) \<Rightarrow> n
              | _ \<Rightarrow> Finite (of_int (clock (length (filter lacksStamp
                                                     (take i (filter conforming xs))))))))
   \<and> (conforming x \<longleftrightarrow>
        (\<exists>ps i t c. x = JObject ps
           \<and> map_of (rev ps) (js ''id'') = Some (JString i)
           \<and> map_of (rev ps) (js ''title'') = Some (JString t)
           \<and> map_of (rev ps) (js ''completed'') = Some (JBool c)))"
proof -
  let ?kept = "filter conforming xs"
  have nonarray: "parseStoredTodos clock (Text (Some j)) = []" if "\<forall>xs. j \<noteq> JArray xs"
    using that by (cases j) (simp_all add: parseStoredTodos_def)
  have len: "length (parseStoredTodos clock (Text (Some (JArray xs)))) = length ?kept"
    by (simp add: parse_array length_mapTodos)
  have elems: "getProp (?kept ! i) (js ''id'')
           = Some (JString (id' (parseStoredTodos clock (Text (Some (JArray xs))) ! i)))
       \<and> getProp (?kept ! i) (js ''title'')
           = Some (JString (title (parseStoredTodos clock (Text (Some (JArray xs))) ! i)))
       \<and> getProp (?kept ! i) (js ''completed'')
           = Some (JBool (completed (parseStoredTodos clock (Text (Some (JArray xs))) ! i)))
       \<and> createdAt (parseStoredTodos clock (Text (Some (JArray xs))) ! i)
           = (case getProp (?kept ! i) (js ''createdAt'') of
                Some (JNumber n) \<Rightarrow> n
              | _ \<Rightarrow> Finite (of_int (clock (length (filter lacksStamp (take i ?kept))))))"
    if i: "i < length ?kept" for i
  proof -
    from i have "?kept ! i \<in> set ?kept"
      by (rule nth_mem)
    then have "conforming (?kept ! i)"
      by simp
    then obtain ps a b c where p: "?kept ! i = JObject ps"
      "map_of (rev ps) (js ''id'') = Some (JString a)"
      "map_of (rev ps) (js ''title'') = Some (JString b)"
      "map_of (rev ps) (js ''completed'') = Some (JBool c)"
      unfolding conforming_iff by blast
    have n: "parseStoredTodos clock (Text (Some (JArray xs))) ! i = mapTodos clock 0 ?kept ! i"
      by (simp add: parse_array)
    show ?thesis
      unfolding n mapTodos_nth [OF i] using p
      by (simp split: option.splits json.splits)
  qed
  show ?thesis
    using nonarray len elems conforming_iff [of x]
    by (simp add: parseStoredTodos_def)
qed

theorem rehydration_never_fails_witness:
  "parseStoredTodos (\<lambda>k. 7 + int k) (Text (Some (JObject []))) = []
   \<and> filter conforming [storedGood, storedNumericId, JNull, storedNoStamp] = [storedGood, storedNoStamp]
   \<and> parseStoredTodos (\<lambda>k. 7 + int k)
        (Text (Some (JArray [storedGood, storedNumericId, JNull, storedNoStamp]))) =
       [\<lparr>id' = js ''k1'', title = js ''Buy milk'', completed = True, createdAt = Finite 5\<rparr>,
        \<lparr>id' = js ''k2'', title = js ''x'', completed = False, createdAt = Finite 7\<rparr>]
   \<and> length (parseStoredTodos (\<lambda>k. 7 + int k)
        (Text (Some (JArray [storedGood, storedNumericId, JNull, storedNoStamp])))) = 2"
proof -
  let ?xs = "[storedGood, storedNumericId, JNull, storedNoStamp]"
  have c: "conforming storedGood" "conforming storedNoStamp" "\<not> conforming storedNumericId"
    "\<not> conforming JNull"
    by (simp_all add: conforming_def storedGood_def storedNoStamp_def storedNumericId_def
        keys_distinct)
  then have k: "filter conforming ?xs = [storedGood, storedNoStamp]"
    by simp
  have v: "parseStoredTodos (\<lambda>k. 7 + int k) (Text (Some (JArray ?xs))) =
       [\<lparr>id' = js ''k1'', title = js ''Buy milk'', completed = True, createdAt = Finite 5\<rparr>,
        \<lparr>id' = js ''k2'', title = js ''x'', completed = False, createdAt = Finite 7\<rparr>]"
    unfolding parse_array k
    by (simp add: storedGood_def storedNoStamp_def keys_distinct)
  have "\<forall>ys. JObject [] \<noteq> JArray ys"
    by simp
  with rehydration_never_fails [of "\<lambda>k. 7 + int k" "JObject []" ?xs JNull] k v show ?thesis
    by simp
qed

section \<open>Identifiers\<close>

lemma ids_mapTodos:
  "map id' (mapTodos clock k ys) = map (\<lambda>x. stringOf (getProp x (js ''id''))) ys"
  by (induction ys arbitrary: k) simp_all

lemma ids_rehydrated:
  "map id' (parseStoredTodos clock (Text (Some (JArray xs))))
     = map (\<lambda>x. stringOf (getProp x (js ''id''))) (filter conforming xs)"
  by (simp add: parse_array ids_mapTodos)

lemma ids_roundtrip: "map id' (parseStoredTodos clock (persist ts)) = map id' ts"
  by (simp add: persist_def JSON_stringify_def ids_rehydrated filter_conforming_stringify
      getProp_stringifyTodo comp_def)

lemma ids_toggleCompleted: "map id' (todos (toggleCompleted i s)) = map id' (todos s)"
  by (simp add: toggleCompleted_def comp_def if_distrib [of id'] cong: if_cong)

lemma ids_commitEdit: "map id' (todos (commitEdit s)) = map id' (todos s)"
  by (simp add: commitEdit_def Let_def comp_def if_distrib [of id'] cong: if_cong)

lemma todos_deleteTodo: "todos (deleteTodo i s) = filter (\<lambda>t. id' t \<noteq> i) (todos s)"
  by (simp add: deleteTodo_def cancelEdit_def Let_def)

lemma todos_clearCompleted: "todos (clearCompleted s) = filter (\<lambda>t. \<not> completed t) (todos s)"
  by (simp add: clearCompleted_def cancelEdit_def Let_def)

lemma parse_two_good:
  "parseStoredTodos (\<lambda>k. 0) (Text (Some (JArray [storedGood, storedGood]))) =
     [\<lparr>id' = js ''k1'', title = js ''Buy milk'', completed = True, createdAt = Finite 5\<rparr>,
      \<lparr>id' = js ''k1'', title = js ''Buy milk'', completed = True, createdAt = Finite 5\<rparr>]"
proof -
  have c: "conforming storedGood"
    by (simp add: conforming_def storedGood_def keys_distinct)
  show ?thesis
    unfolding parse_array using c by (simp add: storedGood_def keys_distinct)
qed

lemma unat_digit36:
  "d < 36 \<Longrightarrow> unat (digit36 d) = (if d < 10 then 48 + d else 87 + d)"
  by (simp add: digit36_def unat_word_ariths unat_of_nat)

lemma digit36_inj: "d < 36 \<Longrightarrow> d' < 36 \<Longrightarrow> digit36 d = digit36 d' \<Longrightarrow> d = d'"
proof -
  assume a: "d < 36" "d' < 36" "digit36 d = digit36 d'"
  then have "unat (digit36 d) = unat (digit36 d')"
    by simp
  with a(1,2) show ?thesis
    by (simp add: unat_digit36 split: if_splits)
qed

lemma digit36_not_sep: "d < 36 \<Longrightarrow> digit36 d \<noteq> 0x5F \<and> digit36 d \<noteq> 0x2D"
proof -
  assume a: "d < 36"
  have "unat (digit36 d) \<noteq> unat (0x5F :: 16 word) \<and> unat (digit36 d) \<noteq> unat (0x2D :: 16 word)"
    using a by (simp add: unat_digit36)
  then show ?thesis
    by auto
qed

lemma digits36_nonempty: "digits36 n \<noteq> []"
  by (subst digits36.simps) simp

lemma digits36_chars: "c \<in> set (digits36 n) \<Longrightarrow> c \<noteq> 0x5F \<and> c \<noteq> 0x2D"
proof (induction n rule: digits36.induct)
  case (1 n)
  show ?case
  proof (cases "n < 36")
    case True
    with "1.prems" have "c = digit36 n"
      by (simp add: digits36.simps [of n])
    with True show ?thesis
      by (simp add: digit36_not_sep)
  next
    case False
    with "1.prems" have "c \<in> set (digits36 (n div 36)) \<or> c = digit36 (n mod 36)"
      by (auto simp: digits36.simps [of n])
    then show ?thesis
      using "1.IH" [OF False] digit36_not_sep [of "n mod 36"] by auto
  qed
qed

lemma digits36_inj: "digits36 m = digits36 n \<Longrightarrow> m = n"
proof (induction m arbitrary: n rule: digits36.induct)
  case (1 m)
  show ?case
  proof (cases "m < 36")
    case m: True
    show ?thesis
    proof (cases "n < 36")
      case True
      with m "1.prems" show ?thesis
        by (simp add: digits36.simps [of m] digits36.simps [of n] digit36_inj)
    next
      case False
      with m "1.prems" digits36_nonempty [of "n div 36"] show ?thesis
        by (simp add: digits36.simps [of m] digits36.simps [of n])
    qed
  next
    case m: False
    show ?thesis
    proof (cases "n < 36")
      case True
      with m "1.prems" digits36_nonempty [of "m div 36"] show ?thesis
        by (simp add: digits36.simps [of m] digits36.simps [of n])
    next
      case False
      with m "1.prems" have e: "digits36 (m div 36) = digits36 (n div 36)"
        "digit36 (m mod 36) = digit36 (n mod 36)"
        by (simp_all add: digits36.simps [of m] digits36.simps [of n])
      from "1.IH" [OF m e(1)] have d: "m div 36 = n div 36" .
      from e(2) have r: "m mod 36 = n mod 36"
        by (rule digit36_inj [rotated 2]) simp_all
      from d r show ?thesis
        by (metis div_mult_mod_eq)
    qed
  qed
qed

lemma toString36_no_underscore: "0x5F \<notin> set (toString36 i)"
  using digits36_chars by (auto simp: toString36_def)

lemma toString36_inj: "toString36 i = toString36 j \<Longrightarrow> i = j"
proof -
  assume a: "toString36 i = toString36 j"
  have hd: "hd (digits36 n) \<noteq> 0x2D" for n
    using digits36_chars [of "hd (digits36 n)" n] digits36_nonempty [of n] by simp
  show ?thesis
  proof (cases "i < 0")
    case i: True
    show ?thesis
    proof (cases "j < 0")
      case True
      with i a have "digits36 (nat (- i)) = digits36 (nat (- j))"
        by (simp add: toString36_def)
      then have "nat (- i) = nat (- j)"
        by (rule digits36_inj)
      with i True show ?thesis
        by simp
    next
      case False
      with i a have "0x2D # digits36 (nat (- i)) = digits36 (nat j)"
        by (simp add: toString36_def)
      then have "hd (digits36 (nat j)) = 0x2D"
        by (metis list.sel(1))
      with hd show ?thesis
        by simp
    qed
  next
    case i: False
    show ?thesis
    proof (cases "j < 0")
      case True
      with i a have "digits36 (nat i) = 0x2D # digits36 (nat (- j))"
        by (simp add: toString36_def)
      then have "hd (digits36 (nat i)) = 0x2D"
        by simp
      with hd show ?thesis
        by simp
    next
      case False
      with i a have "digits36 (nat i) = digits36 (nat j)"
        by (simp add: toString36_def)
      then have "nat i = nat j"
        by (rule digits36_inj)
      with i False show ?thesis
        by simp
    qed
  qed
qed

lemma split_at_separator:
  assumes "c \<notin> set xs" and "c \<notin> set xs'"
  shows "xs @ c # ys = xs' @ c # ys' \<longleftrightarrow> xs = xs' \<and> ys = ys'"
  using assms
proof (induction xs arbitrary: xs')
  case Nil
  then show ?case
    by (cases xs') auto
next
  case (Cons x xs)
  then show ?case
    by (cases xs') auto
qed

lemma generateId_eq_iff:
  "generateId e = generateId e' \<longleftrightarrow>
     now e 0 = now e' 0 \<and> slice 2 10 (random36 e) = slice 2 10 (random36 e')"
proof -
  have u: "js ''_'' = [0x5F]"
    by (simp add: js_def)
  have "generateId e = generateId e' \<longleftrightarrow>
      toString36 (now e 0) = toString36 (now e' 0)
      \<and> slice 2 10 (random36 e) = slice 2 10 (random36 e')"
    unfolding generateId_def u
    using split_at_separator [OF toString36_no_underscore toString36_no_underscore]
    by simp
  then show ?thesis
    using toString36_inj by auto
qed

text \<open>
  Claim C5, as amended. The id that Create generates is the clock reading in base 36, an
  underscore, and the characters 2 to 10 of the random string; two generated ids are equal
  exactly when the clock readings are equal and these slices of the random strings are
  equal. In a collection whose ids are pairwise distinct, Toggle, Delete, CommitEdit,
  ClearCompleted, StartEdit and CancelEdit keep them pairwise distinct; a Create that
  passes validation appends the generated id, so the ids stay pairwise distinct exactly
  when the generated id is not the id of an existing task, and a Create that fails
  validation leaves them as they were; writing the collection and rehydrating it keeps
  them pairwise distinct. Rehydration takes the ids as persisted: its collection has
  pairwise distinct ids when the conforming persisted elements have.
\<close>

theorem ids_stay_unique:
  assumes "distinct (map id' (todos s))"
  shows "distinct (map id' (todos (toggleCompleted i s)))
       \<and> distinct (map id' (todos (deleteTodo i s)))
       \<and> distinct (map id' (todos (commitEdit s)))
       \<and> distinct (map id' (todos (clearCompleted s)))
       \<and> distinct (map id' (todos (startEdit t s)))
       \<and> distinct (map id' (todos (cancelEdit s)))
       \<and> (generateId e \<notin> set (map id' (todos s)) \<longrightarrow> distinct (map id' (todos (addTodo e s))))
       \<and> (trim (newTitle s) \<noteq> [] \<and> length (trim (newTitle s)) \<le> 120 \<longrightarrow>
            map id' (todos (addTodo e s)) = map id' (todos s) @ [generateId e]
            \<and> (distinct (map id' (todos (addTodo e s)))
                 \<longleftrightarrow> generateId e \<notin> set (map id' (todos s))))
       \<and> (trim (newTitle s) = [] \<or> 120 < length (trim (newTitle s)) \<longrightarrow>
            map id' (todos (addTodo e s)) = map id' (todos s))
       \<and> generateId e = toString36 (now e 0) @ js ''_'' @ slice 2 10 (random36 e)
       \<and> (generateId e = generateId e' \<longleftrightarrow>
            now e 0 = now e' 0 \<and> slice 2 10 (random36 e) = slice 2 10 (random36 e'))
       \<and> distinct (map id' (parseStoredTodos clock (persist (todos s))))
       \<and> (distinct (map (\<lambda>x. stringOf (getProp x (js ''id''))) (filter conforming xs)) \<longrightarrow>
            distinct (map id' (parseStoredTodos clock (Text (Some (JArray xs))))))"
proof -
  have add: "distinct (map id' (todos (addTodo e s)))" if "generateId e \<notin> set (map id' (todos s))"
    using that assms by (simp add: addTodo_def Let_def)
  have valid: "map id' (todos (addTodo e s)) = map id' (todos s) @ [generateId e]
            \<and> (distinct (map id' (todos (addTodo e s)))
                 \<longleftrightarrow> generateId e \<notin> set (map id' (todos s)))"
    if g: "trim (newTitle s) \<noteq> []" "length (trim (newTitle s)) \<le> 120"
    unfolding addTodo_valid [OF g] using assms by simp
  have invalid: "map id' (todos (addTodo e s)) = map id' (todos s)"
    if b: "trim (newTitle s) = [] \<or> 120 < length (trim (newTitle s))"
    unfolding addTodo_invalid [OF b] by simp
  have gen: "generateId e = toString36 (now e 0) @ js ''_'' @ slice 2 10 (random36 e)"
    by (simp add: generateId_def)
  have rest: "distinct (map id' (todos (toggleCompleted i s)))
       \<and> distinct (map id' (todos (deleteTodo i s)))
       \<and> distinct (map id' (todos (commitEdit s)))
       \<and> distinct (map id' (todos (clearCompleted s)))
       \<and> distinct (map id' (todos (startEdit t s)))
       \<and> distinct (map id' (todos (cancelEdit s)))
       \<and> distinct (map id' (parseStoredTodos clock (persist (todos s))))
       \<and> (distinct (map (\<lambda>x. stringOf (getProp x (js ''id''))) (filter conforming xs)) \<longrightarrow>
            distinct (map id' (parseStoredTodos clock (Text (Some (JArray xs))))))"
    using assms
    by (simp add: ids_toggleCompleted ids_commitEdit todos_deleteTodo todos_clearCompleted
        distinct_map_filter ids_roundtrip ids_rehydrated startEdit_def cancelEdit_def)
  from rest add valid invalid gen generateId_eq_iff [of e e'] show ?thesis
    by blast
qed

theorem ids_stay_unique_witness:
  "distinct (map id' (todos (init\<lparr>todos := [taskA, taskB], newTitle := js ''  Buy milk ''\<rparr>)))
   \<and> generateId env0 \<notin> set (map id' [taskA, taskB])
   \<and> map id' (todos (addTodo env0 (init\<lparr>todos := [taskA, taskB], newTitle := js ''  Buy milk ''\<rparr>)))
       = [js ''a'', js ''b'', js ''rs_4fzyo82m'']
   \<and> distinct (map id' (todos (addTodo env0 (init\<lparr>todos := [taskA, taskB], newTitle := js ''  Buy milk ''\<rparr>))))
   \<and> distinct (map id' (todos (deleteTodo (js ''a'') (init\<lparr>todos := [taskA, taskB], newTitle := js ''  Buy milk ''\<rparr>))))
   \<and> generateId env0 = generateId (env0\<lparr>random36 := js ''0.4fzyo82m0000''\<rparr>)
   \<and> generateId env0 \<noteq> generateId (env0\<lparr>now := \<lambda>k. 1001\<rparr>)"
proof -
  let ?s = "init\<lparr>todos := [taskA, taskB], newTitle := js ''  Buy milk ''\<rparr>"
  have ne: "js ''a'' \<noteq> js ''b''" "js ''rs_4fzyo82m'' \<noteq> js ''a''" "js ''rs_4fzyo82m'' \<noteq> js ''b''"
    by (simp_all add: js_def)
  then have d: "distinct (map id' (todos ?s))"
    by (simp add: taskA_def taskB_def)
  have g: "generateId env0 \<notin> set (map id' [taskA, taskB])"
    using ne by (simp add: generateId_env0 taskA_def taskB_def)
  then have g': "generateId env0 \<notin> set (map id' (todos ?s))"
    by simp
  have "js ''Buy milk'' \<noteq> []" "length (js ''Buy milk'') \<le> 120"
    by (simp_all add: js_def)
  then have v: "trim (newTitle ?s) \<noteq> []" "length (trim (newTitle ?s)) \<le> 120"
    by (simp_all add: trim_buy_milk)
  have sl: "slice 2 10 (random36 env0) = slice 2 10 (random36 (env0\<lparr>random36 := js ''0.4fzyo82m0000''\<rparr>))"
    by (simp add: env0_def slice_def js_def)
  have nw: "now env0 0 = now (env0\<lparr>random36 := js ''0.4fzyo82m0000''\<rparr>) 0"
    "now env0 0 \<noteq> now (env0\<lparr>now := \<lambda>k. 1001\<rparr>) 0"
    by (simp_all add: env0_def)
  note th = ids_stay_unique [OF d, where i = "js ''a''" and e = env0]
  from th v have "map id' (todos (addTodo env0 ?s)) = map id' (todos ?s) @ [generateId env0]"
    by blast
  then have m: "map id' (todos (addTodo env0 ?s)) = [js ''a'', js ''b'', js ''rs_4fzyo82m'']"
    by (simp add: generateId_env0 taskA_def taskB_def)
  from th v g' have da: "distinct (map id' (todos (addTodo env0 ?s)))"
    by blast
  from th have dd: "distinct (map id' (todos (deleteTodo (js ''a'') ?s)))"
    by blast
  from th [where e' = "env0\<lparr>random36 := js ''0.4fzyo82m0000''\<rparr>"] sl nw(1)
  have e1: "generateId env0 = generateId (env0\<lparr>random36 := js ''0.4fzyo82m0000''\<rparr>)"
    by blast
  from th [where e' = "env0\<lparr>now := \<lambda>k. 1001\<rparr>"] nw(2)
  have e2: "generateId env0 \<noteq> generateId (env0\<lparr>now := \<lambda>k. 1001\<rparr>)"
    by blast
  from d g m da dd e1 e2 show ?thesis
    by blast
qed

text \<open>
  The claim as written fails twice: rehydration keeps two conforming elements with the same
  id, and Create generates the id of an existing task when the clock and the random draw
  repeat.
\<close>

theorem ids_not_always_unique:
  "\<not> distinct (map id' (parseStoredTodos (\<lambda>k. 0) (Text (Some (JArray [storedGood, storedGood])))))
   \<and> distinct (map id' [newTask])
   \<and> \<not> distinct (map id' (todos (addTodo env0 (init\<lparr>todos := [newTask], newTitle := js ''  Buy milk ''\<rparr>))))"
  by (simp add: parse_two_good addTodo_env0)

section \<open>Delete\<close>

lemma total_getCounts: "total' (getCounts ts) = int (length ts)"
  by (simp add: getCounts_def Let_def)

lemma filter_id_unique:
  assumes "distinct (map id' ts)" and "i \<in> set (map id' ts)"
  shows "\<exists>xs t ys. ts = xs @ t # ys \<and> id' t = i \<and> filter (\<lambda>u. id' u \<noteq> i) ts = xs @ ys"
proof -
  from assms(2) obtain t where t: "t \<in> set ts" "id' t = i"
    by auto
  then obtain xs ys where s: "ts = xs @ t # ys"
    by (auto simp: in_set_conv_decomp)
  from assms(1) have "i \<notin> id' ` set xs" "i \<notin> id' ` set ys"
    unfolding s using t(2) by auto
  then have "\<forall>u\<in>set xs \<union> set ys. id' u \<noteq> i"
    by blast
  then have "filter (\<lambda>u. id' u \<noteq> i) ts = xs @ ys"
    unfolding s using t(2) by simp
  with s t(2) show ?thesis
    by blast
qed

text \<open>
  Claim C7, as amended. \<open>deleteTodo\<close> removes every task whose id is the given one and
  keeps the others in their order, so the total falls by the number of tasks with that id.
  In a collection with pairwise distinct ids that holds the id, this is exactly one task
  and the total falls by exactly 1; when no task has the id, the collection and the total
  stay as they were.
\<close>

theorem delete_removes_matching:
  "todos (deleteTodo i s) = filter (\<lambda>t. id' t \<noteq> i) (todos s)
   \<and> total' (getCounts (todos (deleteTodo i s)))
       = total' (getCounts (todos s)) - int (length (filter (\<lambda>t. id' t = i) (todos s)))
   \<and> (distinct (map id' (todos s)) \<and> i \<in> set (map id' (todos s)) \<longrightarrow>
        (\<exists>xs t ys. todos s = xs @ t # ys \<and> id' t = i \<and> todos (deleteTodo i s) = xs @ ys)
        \<and> total' (getCounts (todos (deleteTodo i s))) = total' (getCounts (todos s)) - 1)
   \<and> (i \<notin> set (map id' (todos s)) \<longrightarrow>
        todos (deleteTodo i s) = todos s
        \<and> total' (getCounts (todos (deleteTodo i s))) = total' (getCounts (todos s)))"
proof -
  have len: "length (filter (\<lambda>t. id' t \<noteq> i) ts) + length (filter (\<lambda>t. id' t = i) ts) = length ts"
    for ts
    using sum_length_filter_compl [of "\<lambda>t. id' t = i" ts] by simp
  have cnt: "total' (getCounts (todos (deleteTodo i s)))
       = total' (getCounts (todos s)) - int (length (filter (\<lambda>t. id' t = i) (todos s)))"
    using len [of "todos s"] by (simp add: total_getCounts todos_deleteTodo)
  have one: "(\<exists>xs t ys. todos s = xs @ t # ys \<and> id' t = i \<and> todos (deleteTodo i s) = xs @ ys)
        \<and> total' (getCounts (todos (deleteTodo i s))) = total' (getCounts (todos s)) - 1"
    if d: "distinct (map id' (todos s))" and m: "i \<in> set (map id' (todos s))"
  proof -
    from filter_id_unique [OF d m] obtain xs t ys where
      x: "todos s = xs @ t # ys" "id' t = i" "filter (\<lambda>u. id' u \<noteq> i) (todos s) = xs @ ys"
      by blast
    then show ?thesis
      by (auto simp: todos_deleteTodo total_getCounts)
  qed
  have none: "todos (deleteTodo i s) = todos s
        \<and> total' (getCounts (todos (deleteTodo i s))) = total' (getCounts (todos s))"
    if "i \<notin> set (map id' (todos s))"
  proof -
    from that have "filter (\<lambda>t. id' t \<noteq> i) (todos s) = todos s"
      by (auto simp: filter_id_conv)
    then show ?thesis
      by (simp add: todos_deleteTodo)
  qed
  show ?thesis
    using cnt one none by (simp add: todos_deleteTodo)
qed

theorem delete_removes_matching_witness:
  "distinct (map id' (todos (init\<lparr>todos := [taskA, taskB]\<rparr>)))
   \<and> js ''a'' \<in> set (map id' (todos (init\<lparr>todos := [taskA, taskB]\<rparr>)))
   \<and> js ''zz'' \<notin> set (map id' (todos (init\<lparr>todos := [taskA, taskB]\<rparr>)))
   \<and> todos (deleteTodo (js ''a'') (init\<lparr>todos := [taskA, taskB]\<rparr>)) = [taskB]
   \<and> total' (getCounts (todos (deleteTodo (js ''a'') (init\<lparr>todos := [taskA, taskB]\<rparr>)))) = 2 - 1
   \<and> todos (deleteTodo (js ''zz'') (init\<lparr>todos := [taskA, taskB]\<rparr>)) = [taskA, taskB]
   \<and> total' (getCounts (todos (deleteTodo (js ''zz'') (init\<lparr>todos := [taskA, taskB]\<rparr>)))) = 2"
proof -
  let ?s = "init\<lparr>todos := [taskA, taskB]\<rparr>"
  have ne: "js ''a'' \<noteq> js ''b''" "js ''zz'' \<noteq> js ''a''" "js ''zz'' \<noteq> js ''b''"
    by (simp_all add: js_def)
  have ids: "id' taskA = js ''a''" "id' taskB = js ''b''"
    by (simp_all add: taskA_def taskB_def)
  have d: "distinct (map id' (todos ?s))" and m: "js ''a'' \<in> set (map id' (todos ?s))"
    and n: "js ''zz'' \<notin> set (map id' (todos ?s))"
    using ne by (simp_all add: ids)
  have t: "total' (getCounts (todos ?s)) = 2"
    by (simp add: total_getCounts)
  note del_a = delete_removes_matching [of "js ''a''" ?s]
  from del_a have "todos (deleteTodo (js ''a'') ?s) = filter (\<lambda>t. id' t \<noteq> js ''a'') (todos ?s)"
    by blast
  then have a1: "todos (deleteTodo (js ''a'') ?s) = [taskB]"
    using ne by (simp add: ids)
  from del_a d m have "total' (getCounts (todos (deleteTodo (js ''a'') ?s)))
      = total' (getCounts (todos ?s)) - 1"
    by blast
  then have a2: "total' (getCounts (todos (deleteTodo (js ''a'') ?s))) = 2 - 1"
    unfolding t .
  note a = a1 a2
  note del_z = delete_removes_matching [of "js ''zz''" ?s]
  from del_z n have "todos (deleteTodo (js ''zz'') ?s) = todos ?s"
    "total' (getCounts (todos (deleteTodo (js ''zz'') ?s))) = total' (getCounts (todos ?s))"
    by blast+
  then have z: "todos (deleteTodo (js ''zz'') ?s) = [taskA, taskB]"
    "total' (getCounts (todos (deleteTodo (js ''zz'') ?s))) = 2"
    unfolding t by simp_all
  from d m n a z show ?thesis
    by blast
qed

text \<open>
  The claim as written fails in a collection that holds an id twice (rehydration and Create
  both allow it): Delete removes both tasks and the total falls by 2.
\<close>

theorem delete_removes_every_match:
  "total' (getCounts (todos (init\<lparr>todos := [taskA, taskB, twinTask]\<rparr>))) = 3
   \<and> todos (deleteTodo (js ''a'') (init\<lparr>todos := [taskA, taskB, twinTask]\<rparr>)) = [taskB]
   \<and> total' (getCounts (todos (deleteTodo (js ''a'') (init\<lparr>todos := [taskA, taskB, twinTask]\<rparr>)))) = 1"
proof -
  have ne: "js ''b'' \<noteq> js ''a''"
    by (simp add: js_def)
  have ids: "id' taskA = js ''a''" "id' taskB = js ''b''" "id' twinTask = js ''a''"
    by (simp_all add: taskA_def taskB_def twinTask_def)
  show ?thesis
    using ne by (simp add: total_getCounts todos_deleteTodo ids)
qed

section \<open>ClearCompleted\<close>

lemma completed_getCounts: "completed' (getCounts ts) = int (length (filter (\<lambda>t. completed t) ts))"
  by (simp add: getCounts_def Let_def)

text \<open>
  \<open>clearCompleted\<close> keeps exactly the tasks that are not completed, in their order, so the
  count of completed tasks is 0 afterwards.
\<close>

lemma clearCompleted_collection:
  "todos (clearCompleted s) = filter (\<lambda>t. \<not> completed t) (todos s)
   \<and> completed' (getCounts (todos (clearCompleted s))) = 0
   \<and> newTitle (clearCompleted s) = newTitle s \<and> filter' (clearCompleted s) = filter' s"
  by (simp add: todos_clearCompleted completed_getCounts)
     (simp add: clearCompleted_def cancelEdit_def Let_def)

text \<open>
  When the edit target is an id that is not the empty string, the edit is cancelled exactly
  when no task with that id is left.
\<close>

lemma clearCompleted_edit_state:
  assumes "editingId s = Some i" and "i \<noteq> []"
  shows "clearCompleted s =
     (if i \<in> id' ` set (todos (clearCompleted s))
      then s\<lparr>todos := filter (\<lambda>t. \<not> completed t) (todos s)\<rparr>
      else cancelEdit (s\<lparr>todos := filter (\<lambda>t. \<not> completed t) (todos s)\<rparr>))"
proof -
  let ?s' = "s\<lparr>todos := filter (\<lambda>t. \<not> completed t) (todos s)\<rparr>"
  have ex: "list_ex (\<lambda>t. Some (id' t) = editingId s \<and> \<not> completed t) (todos s)
          \<longleftrightarrow> i \<in> id' ` set (filter (\<lambda>t. \<not> completed t) (todos s))"
    using assms(1) by (auto simp: list_ex_iff)
  have "clearCompleted s =
     (if list_ex (\<lambda>t. Some (id' t) = editingId s \<and> \<not> completed t) (todos s) then ?s'
      else cancelEdit ?s')"
    using assms by (simp add: clearCompleted_def Let_def)
  then show ?thesis
    unfolding ex todos_clearCompleted .
qed

text \<open>
  Claim C8, at the input where the code departs from it. The guard of the edit check is
  the truthiness of \<open>editingId\<close>, and the empty string is a falsy id that rehydration
  accepts. When a persisted completed task whose id is the empty string is being edited,
  \<open>clearCompleted\<close> removes the task and leaves the edit target and the edit buffer as
  they were, although the target is no longer in the collection.
\<close>

theorem clearCompleted_keeps_edit_of_empty_id:
  "parseStoredTodos (\<lambda>k. 0) (Text (Some (JArray [storedEmptyId]))) = [emptyIdTask]
   \<and> startEdit emptyIdTask (init\<lparr>todos := [emptyIdTask]\<rparr>)
       = init\<lparr>todos := [emptyIdTask], editingId := Some [], editingTitle := js ''x''\<rparr>
   \<and> clearCompleted (init\<lparr>todos := [emptyIdTask], editingId := Some [], editingTitle := js ''x''\<rparr>)
       = init\<lparr>todos := [], editingId := Some [], editingTitle := js ''x''\<rparr>"
proof -
  have c: "conforming storedEmptyId"
    by (simp add: conforming_def storedEmptyId_def keys_distinct)
  have p: "parseStoredTodos (\<lambda>k. 0) (Text (Some (JArray [storedEmptyId]))) = [emptyIdTask]"
    unfolding parse_array using c
    by (simp add: storedEmptyId_def emptyIdTask_def keys_distinct)
  have s: "startEdit emptyIdTask (init\<lparr>todos := [emptyIdTask]\<rparr>)
       = init\<lparr>todos := [emptyIdTask], editingId := Some [], editingTitle := js ''x''\<rparr>"
    by (simp add: startEdit_def emptyIdTask_def init_def)
  have k: "clearCompleted (init\<lparr>todos := [emptyIdTask], editingId := Some [], editingTitle := js ''x''\<rparr>)
       = init\<lparr>todos := [], editingId := Some [], editingTitle := js ''x''\<rparr>"
    by (simp add: clearCompleted_def Let_def emptyIdTask_def)
  from p s k show ?thesis
    by blast
qed

section \<open>CommitEdit\<close>

lemma commitEdit_invalid:
  assumes "trim (editingTitle s) = [] \<or> 120 < length (trim (editingTitle s))"
  shows "commitEdit s = s\<lparr>error := the (validateTitle (editingTitle s))\<rparr>"
  using assms by (simp add: commitEdit_def Let_def validateTitle_truthy)

lemma commitEdit_valid:
  assumes "trim (editingTitle s) \<noteq> []" and "length (trim (editingTitle s)) \<le> 120"
  shows "commitEdit s =
     s\<lparr>todos := map (\<lambda>t. if Some (id' t) = editingId s then t\<lparr>title := trim (editingTitle s)\<rparr>
                           else t) (todos s),
       editingId := None, editingTitle := [], error := []\<rparr>"
proof -
  have "\<not> truthyS (validateTitle (editingTitle s))"
    using assms by (simp add: validateTitle_truthy)
  then show ?thesis
    by (simp add: commitEdit_def Let_def)
qed



section \<open>Operations on an id that is not in the collection\<close>

lemma map_if_absent:
  assumes "\<forall>t\<in>set ts. \<not> p t"
  shows "map (\<lambda>t. if p t then f t else t) ts = ts"
  using assms by (induction ts) simp_all

lemma filter_absent:
  assumes "i \<notin> id' ` set ts"
  shows "filter (\<lambda>t. id' t \<noteq> i) ts = ts"
  using assms by (induction ts) auto

text \<open>
  Claim C10, as amended. Let no task of the collection have the id \<open>i\<close>. Toggle of
  \<open>i\<close> leaves the whole store as it was. Delete of \<open>i\<close> leaves the collection as it
  was, and the whole store unless \<open>i\<close> is the edit target, in which case it cancels the
  edit. StartEdit receives a task, not an id, and makes no check: it leaves the collection
  as it was, sets the edit target and the buffer to the task's id and title, and clears
  the error message. CommitEdit with the edit target \<open>i\<close> leaves the collection as it
  was; with a buffer that passes validation it cancels the edit, with one that fails it
  sets the validation message and nothing else. No operation has an error for an id that
  is not found: the error message after Toggle is the one before, after Delete it is the
  one before or empty, after StartEdit it is empty, and after CommitEdit it is empty or
  the message of the validation rule that the buffer failed.
\<close>

theorem absent_id_effects:
  assumes "i \<notin> id' ` set (todos s)"
  shows "toggleCompleted i s = s
       \<and> todos (deleteTodo i s) = todos s
       \<and> deleteTodo i s = (if editingId s = Some i then cancelEdit s else s)
       \<and> todos (startEdit t s) = todos s
       \<and> editingId (startEdit t s) = Some (id' t)
       \<and> editingTitle (startEdit t s) = title t
       \<and> (editingId s = Some i \<longrightarrow>
            todos (commitEdit s) = todos s
            \<and> commitEdit s =
                (if trim (editingTitle s) = [] \<or> 120 < length (trim (editingTitle s))
                 then s\<lparr>error := the (validateTitle (editingTitle s))\<rparr>
                 else cancelEdit s))
       \<and> error (startEdit t s) = []
       \<and> newTitle (startEdit t s) = newTitle s
       \<and> filter' (startEdit t s) = filter' s
       \<and> error (toggleCompleted i s) = error s
       \<and> error (deleteTodo i s) = (if editingId s = Some i then [] else error s)
       \<and> (editingId s = Some i \<longrightarrow>
            error (commitEdit s) =
              (if trim (editingTitle s) = [] then js ''Please type a task name.''
               else if 120 < length (trim (editingTitle s))
                    then js ''Task name is too long (max 120 chars).''
               else []))"
proof -
  from assms have no: "\<forall>t\<in>set (todos s). id' t \<noteq> i"
    by auto
  have tog: "toggleCompleted i s = s"
    unfolding toggleCompleted_def using no by (simp add: map_if_absent)
  have del: "deleteTodo i s = (if editingId s = Some i then cancelEdit s else s)"
    unfolding deleteTodo_def Let_def filter_absent [OF assms] by simp
  have com: "commitEdit s =
                (if trim (editingTitle s) = [] \<or> 120 < length (trim (editingTitle s))
                 then s\<lparr>error := the (validateTitle (editingTitle s))\<rparr>
                 else cancelEdit s)"
    if e: "editingId s = Some i"
  proof (cases "trim (editingTitle s) = [] \<or> 120 < length (trim (editingTitle s))")
    case True
    then show ?thesis
      by (simp add: commitEdit_invalid)
  next
    case False
    then have g: "trim (editingTitle s) \<noteq> []" "length (trim (editingTitle s)) \<le> 120"
      by simp_all
    from no e have "\<forall>t\<in>set (todos s). \<not> Some (id' t) = editingId s"
      by simp
    then have "map (\<lambda>t. if Some (id' t) = editingId s then t\<lparr>title := trim (editingTitle s)\<rparr>
                           else t) (todos s) = todos s"
      by (rule map_if_absent)
    then show ?thesis
      unfolding commitEdit_valid [OF g] using False by (simp add: cancelEdit_def)
  qed
  have com_todos: "todos (commitEdit s) = todos s" if e: "editingId s = Some i"
    unfolding com [OF e] by (simp add: cancelEdit_def)
  have com_error: "error (commitEdit s) =
              (if trim (editingTitle s) = [] then js ''Please type a task name.''
               else if 120 < length (trim (editingTitle s))
                    then js ''Task name is too long (max 120 chars).''
               else [])"
    if e: "editingId s = Some i"
    unfolding com [OF e] by (simp add: validateTitle_cases cancelEdit_def)
  have del_error: "error (deleteTodo i s) = (if editingId s = Some i then [] else error s)"
    unfolding del by (simp add: cancelEdit_def)
  have start: "error (startEdit t s) = []" "newTitle (startEdit t s) = newTitle s"
    "filter' (startEdit t s) = filter' s" "todos (startEdit t s) = todos s"
    "editingId (startEdit t s) = Some (id' t)" "editingTitle (startEdit t s) = title t"
    by (simp_all add: startEdit_def)
  have del_todos: "todos (deleteTodo i s) = todos s"
    unfolding del by (simp add: cancelEdit_def)
  from tog del del_todos com com_todos com_error del_error start show ?thesis
    by simp
qed

theorem absent_id_effects_witness:
  "js ''gone'' \<notin> id' ` set (todos stale)
   \<and> toggleCompleted (js ''gone'') stale = stale
   \<and> todos (deleteTodo (js ''gone'') stale) = [taskA]
   \<and> todos (commitEdit stale) = [taskA]
   \<and> error (startEdit taskA stale) = []
   \<and> error (commitEdit stale) = []"
proof -
  have ne: "js ''gone'' \<noteq> js ''a''"
    by (simp add: js_def)
  then have a: "js ''gone'' \<notin> id' ` set (todos stale)"
    by (simp add: stale_def taskA_def)
  have e: "editingId stale = Some (js ''gone'')" and t: "todos stale = [taskA]"
    by (simp_all add: stale_def)
  note th = absent_id_effects [OF a, of taskA]
  from th e have "toggleCompleted (js ''gone'') stale = stale"
    "todos (deleteTodo (js ''gone'') stale) = todos stale"
    "todos (commitEdit stale) = todos stale"
    by blast+
  then have x: "toggleCompleted (js ''gone'') stale = stale"
    "todos (deleteTodo (js ''gone'') stale) = [taskA]"
    "todos (commitEdit stale) = [taskA]"
    unfolding t .
  have n: "trim (editingTitle stale) = js ''Buy milk''"
    by (simp add: stale_def trim_buy_milk)
  have "js ''Buy milk'' \<noteq> []" "length (js ''Buy milk'') \<le> 120"
    by (simp_all add: js_def)
  then have g: "trim (editingTitle stale) \<noteq> []" "\<not> 120 < length (trim (editingTitle stale))"
    unfolding n by simp_all
  from th have se: "error (startEdit taskA stale) = []"
    by blast
  from th e have "error (commitEdit stale) =
              (if trim (editingTitle stale) = [] then js ''Please type a task name.''
               else if 120 < length (trim (editingTitle stale))
                    then js ''Task name is too long (max 120 chars).''
               else [])"
    by blast
  then have ce: "error (commitEdit stale) = []"
    using g by simp
  from a x se ce show ?thesis
    by blast
qed

text \<open>
  The claim as written fails for the edit state: with an edit target that is not in the
  collection, CommitEdit and Delete of that id clear the edit target and the buffer, and
  StartEdit of a task that is not in the collection sets them.
\<close>

theorem absent_id_changes_edit_state:
  "js ''gone'' \<notin> id' ` set (todos stale)
   \<and> editingId stale = Some (js ''gone'')
   \<and> editingId (commitEdit stale) = None
   \<and> editingTitle stale = js ''  Buy milk ''
   \<and> editingTitle (commitEdit stale) = []
   \<and> editingId (deleteTodo (js ''gone'') stale) = None
   \<and> id' taskB \<notin> id' ` set (todos stale)
   \<and> editingId (startEdit taskB stale) = Some (id' taskB)
   \<and> commitEdit stale \<noteq> stale
   \<and> deleteTodo (js ''gone'') stale \<noteq> stale
   \<and> startEdit taskB stale \<noteq> stale"
proof -
  have ne: "js ''gone'' \<noteq> js ''a''" "js ''b'' \<noteq> js ''a''"
    by (simp_all add: js_def)
  then have a: "js ''gone'' \<notin> id' ` set (todos stale)" "id' taskB \<notin> id' ` set (todos stale)"
    by (simp_all add: stale_def taskA_def taskB_def)
  have e: "editingId stale = Some (js ''gone'')" "editingTitle stale = js ''  Buy milk ''"
    by (simp_all add: stale_def)
  have n: "trim (editingTitle stale) = js ''Buy milk''"
    by (simp add: e trim_buy_milk)
  have "js ''Buy milk'' \<noteq> []" "length (js ''Buy milk'') \<le> 120"
    by (simp_all add: js_def)
  then have g: "trim (editingTitle stale) \<noteq> []" "length (trim (editingTitle stale)) \<le> 120"
    unfolding n by simp_all
  have c: "editingId (commitEdit stale) = None" "editingTitle (commitEdit stale) = []"
    unfolding commitEdit_valid [OF g] by simp_all
  have d: "editingId (deleteTodo (js ''gone'') stale) = None"
    by (simp add: deleteTodo_def Let_def cancelEdit_def e)
  have s: "editingId (startEdit taskB stale) = Some (id' taskB)"
    by (simp add: startEdit_def)
  have "js ''b'' \<noteq> js ''gone''"
    by (simp add: js_def)
  then have b: "Some (id' taskB) \<noteq> editingId stale"
    by (simp add: e taskB_def)
  have x: "commitEdit stale \<noteq> stale" "deleteTodo (js ''gone'') stale \<noteq> stale"
    "startEdit taskB stale \<noteq> stale"
    using c(1) d s e(1) b by auto
  from a e c d s x show ?thesis
    by blast
qed

end
